theory Spec2Isabelle
  imports Main
begin

section \<open>Strings as Python sees them\<close>

text \<open>
  The three scripts of the repository (\<^verbatim>\<open>deepseek_python_20250617_002b0f.py\<close>,
  \<^verbatim>\<open>..._5c3fc3.py\<close> and \<^verbatim>\<open>..._83bd0a.py\<close>) share one search engine and differ in link
  discovery and in the HTTP requests they build. Text is a \<^typ>\<open>string\<close>; the characters
  are read as ASCII, so \<^verbatim>\<open>str.lower\<close> works on each character alone and keeps the
  length, and \<^verbatim>\<open>re.IGNORECASE\<close> compares two characters by their lower-case forms.
\<close>

definition lower_char :: "char \<Rightarrow> char" where
  "lower_char c =
     (let n = (of_char c :: nat) in if 65 \<le> n \<and> n \<le> 90 then char_of (n + 32) else c)"

text \<open>\<^verbatim>\<open>s.lower()\<close>\<close>

definition lower :: "string \<Rightarrow> string" where
  "lower s = map lower_char s"

text \<open>\<^verbatim>\<open>s.startswith(p)\<close> and \<^verbatim>\<open>s.endswith(p)\<close>\<close>

definition startswith :: "string \<Rightarrow> string \<Rightarrow> bool" where
  "startswith s p = (take (length p) s = p)"

definition endswith :: "string \<Rightarrow> string \<Rightarrow> bool" where
  "endswith s p = (length p \<le> length s \<and> drop (length s - length p) s = p)"

text \<open>\<^verbatim>\<open>sub in s\<close>: \<open>sub\<close> occurs somewhere in \<open>s\<close>.\<close>

fun contains :: "string \<Rightarrow> string \<Rightarrow> bool" where
  "contains [] sub = (sub = [])"
| "contains (c # cs) sub = (startswith (c # cs) sub \<or> contains cs sub)"

text \<open>
  \<^verbatim>\<open>s.count(sub)\<close>: the occurrences of \<open>sub\<close> found from left to right, the scan going
  on behind each occurrence found; the empty string is counted once at each of the
  \<open>len(s) + 1\<close> positions.
\<close>

function count_sub :: "string \<Rightarrow> string \<Rightarrow> nat" where
  "count_sub s sub =
     (if sub = [] then length s + 1
      else if s = [] then 0
      else if startswith s sub then 1 + count_sub (drop (length sub) s) sub
      else count_sub (tl s) sub)"
  by pat_completeness auto
termination
  by (relation "measure (\<lambda>(s, sub). length s)") auto

declare count_sub.simps [simp del]

text \<open>
  \<^verbatim>\<open>s.strip()\<close>: the ASCII characters for which \<^verbatim>\<open>str.isspace\<close> holds are the codes
  9 to 13, 28 to 31 and 32.
\<close>

definition isspace :: "char \<Rightarrow> bool" where
  "isspace c = (let n = (of_char c :: nat) in (9 \<le> n \<and> n \<le> 13) \<or> (28 \<le> n \<and> n \<le> 32))"

definition strip :: "string \<Rightarrow> string" where
  "strip s = rev (dropWhile isspace (rev (dropWhile isspace s)))"

section \<open>The context pattern\<close>

text \<open>
  \<^verbatim>\<open>re.compile(r'(.{0,30}' + re.escape(keyword) + r'.{0,30})', re.IGNORECASE)\<close>.
  Without \<^verbatim>\<open>re.DOTALL\<close> the dot matches every character but the line feed.
  \<^verbatim>\<open>re.escape\<close> makes the keyword a literal, compared without regard to case.
\<close>

definition dot :: "char \<Rightarrow> bool" where
  "dot c = (c \<noteq> CHR 0x0A)"

text \<open>The most characters a greedy \<^verbatim>\<open>.{0,n}\<close> can take at the front of \<open>s\<close>.\<close>

definition dots_upto :: "nat \<Rightarrow> string \<Rightarrow> nat" where
  "dots_upto n s = length (takeWhile dot (take n s))"

text \<open>The literal keyword matches at the front of \<open>s\<close>, case ignored.\<close>

definition ci_startswith :: "string \<Rightarrow> string \<Rightarrow> bool" where
  "ci_startswith s kw = (lower (take (length kw) s) = lower kw)"

text \<open>
  The first \<^verbatim>\<open>.{0,30}\<close> is greedy: the matcher tries the longest run first and gives
  characters back one at a time until the keyword matches behind the run.
\<close>

fun backtrack :: "nat \<Rightarrow> string \<Rightarrow> string \<Rightarrow> nat option" where
  "backtrack 0 kw s = (if ci_startswith s kw then Some 0 else None)"
| "backtrack (Suc k) kw s =
     (if ci_startswith (drop (Suc k) s) kw then Some (Suc k) else backtrack k kw s)"

text \<open>
  One attempt of the pattern at the front of \<open>s\<close>: the length of the match, if any.
  The second \<^verbatim>\<open>.{0,30}\<close> takes all it can; nothing follows it.
\<close>

definition match_at :: "string \<Rightarrow> string \<Rightarrow> nat option" where
  "match_at kw s =
     (case backtrack (dots_upto 30 s) kw s of
        None \<Rightarrow> None
      | Some k \<Rightarrow> Some (k + length kw + dots_upto 30 (drop (k + length kw) s)))"

lemma dots_upto_le: "dots_upto n s \<le> length s"
proof -
  have "length (takeWhile dot (take n s)) \<le> length (take n s)"
    by (rule length_takeWhile_le)
  then show ?thesis by (simp add: dots_upto_def)
qed

lemma ci_startswith_length: "ci_startswith s kw \<Longrightarrow> length kw \<le> length s"
proof -
  assume "ci_startswith s kw"
  then have "length (lower (take (length kw) s)) = length (lower kw)"
    by (simp add: ci_startswith_def)
  then show ?thesis by (simp add: lower_def)
qed

lemma backtrack_Some:
  "backtrack n kw s = Some k \<Longrightarrow> k \<le> n \<and> ci_startswith (drop k s) kw"
  by (induction n) (auto split: if_splits)

lemma match_at_le: "match_at kw s = Some n \<Longrightarrow> n \<le> length s"
proof -
  assume m: "match_at kw s = Some n"
  then obtain k where k: "backtrack (dots_upto 30 s) kw s = Some k"
    and n: "n = k + length kw + dots_upto 30 (drop (k + length kw) s)"
    by (auto simp: match_at_def split: option.splits)
  from backtrack_Some [OF k] have c: "ci_startswith (drop k s) kw"
    and kn: "k \<le> dots_upto 30 s" by simp_all
  from kn dots_upto_le [of 30 s] have "k \<le> length s" by simp
  with ci_startswith_length [OF c] have "k + length kw \<le> length s" by simp
  moreover have "dots_upto 30 (drop (k + length kw) s) \<le> length s - (k + length kw)"
    using dots_upto_le [of 30 "drop (k + length kw) s"] by simp
  ultimately show ?thesis using n by simp
qed

text \<open>
  \<^verbatim>\<open>pattern.finditer(text)\<close>, as the list of the matched strings (group 1 is the whole
  match). The scan tries each position from left to right and goes on at the end of a
  match. After an empty match the next attempt starts at the same place and must not be
  empty there (the flag); the longest match at a place is empty only when no other is, so
  refusing it is the failure of the attempt.
\<close>

function finditer :: "string \<Rightarrow> bool \<Rightarrow> string \<Rightarrow> string list" where
  "finditer kw must_advance s =
     (case match_at kw s of
        None \<Rightarrow> (if s = [] then [] else finditer kw False (tl s))
      | Some n \<Rightarrow>
          if n = 0 \<and> must_advance then (if s = [] then [] else finditer kw False (tl s))
          else take n s # finditer kw (n = 0) (drop n s))"
  by pat_completeness auto
termination
proof (relation "measure (\<lambda>(kw, adv, s). 2 * length s + (if adv then 0 else 1))", goal_cases)
  case 1
  show ?case by simp
next
  case (2 kw must_advance s)
  then show ?case by (cases s) auto
next
  case (3 kw must_advance s n)
  then show ?case by (cases s) auto
next
  case (4 kw must_advance s n)
  from match_at_le [OF 4(1)] have "n \<le> length s" .
  with 4 show ?case by (cases "n = 0") auto
qed

declare finditer.simps [simp del]

section \<open>The search engine\<close>

text \<open>
  One dictionary of \<^verbatim>\<open>results\<close>. The field \<open>url\<close> stands for what identifies the
  document in the result: the URL in two scripts, the link's dictionary (URL, title,
  id) in the third.
\<close>

record 'd search_result =
  url :: 'd
  occurrences :: "string list"
  count :: nat

text \<open>
  \<^verbatim>\<open>search_keyword_in_pdfs(pdf_links, keyword)\<close>. The parameter \<open>extract_text\<close> is
  \<^verbatim>\<open>extract_text_from_pdf\<close> as the loop sees it: a text for each document, empty when
  the document could not be read. The progress bar and the pause between documents
  leave no trace in the result.
\<close>

fun search_loop :: "('d \<Rightarrow> string) \<Rightarrow> 'd list \<Rightarrow> string \<Rightarrow> 'd search_result list" where
  "search_loop extract_text [] keyword = []"
| "search_loop extract_text (pdf_url # rest) keyword =
     (let text = extract_text pdf_url in
      if text = [] then search_loop extract_text rest keyword
      else
        let text_lower = lower text in
        if contains text_lower keyword then
          \<lparr>url = pdf_url,
           occurrences = take 5 (map strip (finditer keyword False text)),
           count = count_sub text_lower keyword\<rparr>
          # search_loop extract_text rest keyword
        else search_loop extract_text rest keyword)"

definition search_keyword_in_pdfs ::
  "('d \<Rightarrow> string) \<Rightarrow> 'd list \<Rightarrow> string \<Rightarrow> 'd search_result list" where
  "search_keyword_in_pdfs extract_text pdf_links keyword =
     search_loop extract_text pdf_links (lower keyword)"

section \<open>Occurrence counts\<close>

text \<open>
  The matches of the keyword in the text as a reader counts them: the original text is
  scanned from left to right, the characters compared without regard to case, and the
  scan goes on behind each match.
\<close>

function count_ci_matches :: "string \<Rightarrow> string \<Rightarrow> nat" where
  "count_ci_matches t k =
     (if k = [] then length t + 1
      else if t = [] then 0
      else if ci_startswith t k then 1 + count_ci_matches (drop (length k) t) k
      else count_ci_matches (tl t) k)"
  by pat_completeness auto
termination
  by (relation "measure (\<lambda>(t, k). length t)") auto

declare count_ci_matches.simps [simp del]



lemma length_lower: "length (lower s) = length s"
  by (simp add: lower_def)

lemma lower_Nil_iff: "lower s = [] \<longleftrightarrow> s = []"
  by (simp add: lower_def)

lemma startswith_lower: "startswith (lower t) (lower k) = ci_startswith t k"
  by (simp add: startswith_def ci_startswith_def lower_def take_map)

lemma count_sub_Nil: "count_sub s [] = length s + 1"
  by (simp add: count_sub.simps)

lemma lower_Nil: "lower [] = []"
  by (simp add: lower_def)

lemma count_sub_empty: "sub \<noteq> [] \<Longrightarrow> count_sub [] sub = 0"
  by (simp add: count_sub.simps)

lemma count_ci_matches_empty: "k \<noteq> [] \<Longrightarrow> count_ci_matches [] k = 0"
  by (simp add: count_ci_matches.simps)

lemma count_sub_hit:
  "sub \<noteq> [] \<Longrightarrow> s \<noteq> [] \<Longrightarrow> startswith s sub \<Longrightarrow>
     count_sub s sub = 1 + count_sub (drop (length sub) s) sub"
  by (simp add: count_sub.simps [of s])

lemma count_sub_miss:
  "sub \<noteq> [] \<Longrightarrow> \<not> startswith s sub \<Longrightarrow> count_sub s sub = count_sub (tl s) sub"
  by (cases "s = []") (simp_all add: count_sub.simps [of s] count_sub.simps [of "[]"])

lemma count_ci_matches_Nil: "count_ci_matches t [] = length t + 1"
  by (simp add: count_ci_matches.simps)

lemma count_ci_matches_hit:
  "k \<noteq> [] \<Longrightarrow> t \<noteq> [] \<Longrightarrow> ci_startswith t k \<Longrightarrow>
     count_ci_matches t k = 1 + count_ci_matches (drop (length k) t) k"
  by (simp add: count_ci_matches.simps [of t])

lemma count_ci_matches_miss:
  "k \<noteq> [] \<Longrightarrow> \<not> ci_startswith t k \<Longrightarrow> count_ci_matches t k = count_ci_matches (tl t) k"
  by (cases "t = []") (simp_all add: count_ci_matches.simps [of t] count_ci_matches.simps [of "[]"])

lemma drop_lower: "drop n (lower t) = lower (drop n t)"
  by (simp add: lower_def drop_map)

lemma tl_lower: "tl (lower t) = lower (tl t)"
  by (simp add: lower_def map_tl)

lemma count_sub_lower: "count_sub (lower t) (lower k) = count_ci_matches t k"
proof (induction t k rule: count_ci_matches.induct)
  case (1 t k)
  show ?case
  proof (cases "k = []")
    case True
    then show ?thesis
      by (simp add: lower_Nil_iff [THEN iffD2] count_sub_Nil count_ci_matches_Nil length_lower)
  next
    case k: False
    then have lk: "lower k \<noteq> []" by (simp add: lower_Nil_iff)
    show ?thesis
    proof (cases "ci_startswith t k")
      case True
      with k have t: "t \<noteq> []" using ci_startswith_length [of t k] by auto
      then have lt: "lower t \<noteq> []" by (simp add: lower_Nil_iff)
      from True have sw: "startswith (lower t) (lower k)" by (simp add: startswith_lower)
      from k t True "1.IH"(1) have ih: "count_sub (lower (drop (length k) t)) (lower k)
            = count_ci_matches (drop (length k) t) k" by simp
      show ?thesis
        by (simp add: count_sub_hit [OF lk lt sw] count_ci_matches_hit [OF k t True]
            length_lower drop_lower ih)
    next
      case False
      then have nsw: "\<not> startswith (lower t) (lower k)" by (simp add: startswith_lower)
      show ?thesis
      proof (cases "t = []")
        case True
        then show ?thesis
          using k lk by (simp add: lower_Nil count_sub_empty count_ci_matches_empty)
      next
        case t: False
        with k False "1.IH"(2) have ih: "count_sub (lower (tl t)) (lower k) = count_ci_matches (tl t) k"
          by simp
        show ?thesis
          by (simp add: count_sub_miss [OF lk nsw] count_ci_matches_miss [OF k False] tl_lower ih)
      qed
    qed
  qed
qed



text \<open>The positions the scan of \<open>count_ci_matches\<close> finds, counted from \<open>p\<close>.\<close>

function ci_positions :: "nat \<Rightarrow> string \<Rightarrow> string \<Rightarrow> nat list" where
  "ci_positions p t k =
     (if k = [] then [p ..< p + length t + 1]
      else if t = [] then []
      else if ci_startswith t k then p # ci_positions (p + length k) (drop (length k) t) k
      else ci_positions (p + 1) (tl t) k)"
  by pat_completeness auto
termination
  by (relation "measure (\<lambda>(p, t, k). length t)") auto

declare ci_positions.simps [simp del]

lemma search_loop_mem:
  "r \<in> set (search_loop ex ds kw) \<Longrightarrow>
     url r \<in> set ds \<and> ex (url r) \<noteq> [] \<and> contains (lower (ex (url r))) kw \<and>
     count r = count_sub (lower (ex (url r))) kw \<and>
     occurrences r = take 5 (map strip (finditer kw False (ex (url r))))"
  by (induction ds) (auto simp: Let_def split: if_splits)


lemma length_ci_positions: "length (ci_positions p t k) = count_ci_matches t k"
proof (induction t k arbitrary: p rule: count_ci_matches.induct)
  case (1 t k)
  show ?case
  proof (cases "k = []")
    case True
    then show ?thesis by (simp add: ci_positions.simps [of p t] count_ci_matches_Nil)
  next
    case k: False
    show ?thesis
    proof (cases "t = []")
      case True
      with k show ?thesis by (simp add: ci_positions.simps [of p "[]"] count_ci_matches_empty)
    next
      case t: False
      show ?thesis
      proof (cases "ci_startswith t k")
        case True
        from "1.IH"(1) [OF k t True] show ?thesis
          using k t True by (simp add: ci_positions.simps [of p t] count_ci_matches_hit)
      next
        case False
        from "1.IH"(2) [OF k t False] show ?thesis
          using k t False by (simp add: ci_positions.simps [of p t] count_ci_matches_miss)
      qed
    qed
  qed
qed








section \<open>Ranking and the threshold\<close>

text \<open>
  \<^verbatim>\<open>sorted(results, key=lambda x: x['count'], reverse=True)\<close>. Python's sort is
  stable; with \<^verbatim>\<open>reverse=True\<close> the list is reversed, sorted and reversed again, which
  keeps elements of equal key in their first order. A stable sort has one result, so
  the insertion sort \<^const>\<open>sort_key\<close> stands for it.
\<close>

definition sorted_reverse :: "('a \<Rightarrow> nat) \<Rightarrow> 'a list \<Rightarrow> 'a list" where
  "sorted_reverse key xs = rev (sort_key key (rev xs))"

text \<open>The sequence the loop of \<^verbatim>\<open>main\<close> runs through.\<close>

definition ranked_results ::
  "('d \<Rightarrow> string) \<Rightarrow> 'd list \<Rightarrow> string \<Rightarrow> 'd search_result list" where
  "ranked_results extract_text pdf_links keyword =
     sorted_reverse count (search_keyword_in_pdfs extract_text pdf_links keyword)"

text \<open>
  \<^verbatim>\<open>main()\<close>, from the button on: what the page shows. \<open>pdf_links\<close> is what
  \<^verbatim>\<open>get_all_pdf_links\<close> returned, \<open>min_matches\<close> the number input (an integer, at
  least 1 in the form). A result whose count is below \<open>min_matches\<close> is passed over;
  each other one is shown in an expander with its count and occurrences.
\<close>

datatype 'd page_shown =
    Nothing_shown
  | Warning_enter_keyword
  | Error_no_pdfs
  | Warning_no_documents
  | Expanders "'d search_result list"

definition main ::
  "bool \<Rightarrow> string \<Rightarrow> int \<Rightarrow> 'd list \<Rightarrow> ('d \<Rightarrow> string) \<Rightarrow> 'd page_shown" where
  "main button keyword min_matches pdf_links extract_text =
     (if button \<and> keyword \<noteq> [] then
        if pdf_links = [] then Error_no_pdfs
        else
          let results = search_keyword_in_pdfs extract_text pdf_links keyword in
          if results = [] then Warning_no_documents
          else Expanders
            (filter (\<lambda>result. \<not> int (count result) < min_matches)
               (ranked_results extract_text pdf_links keyword))
      else if keyword = [] then Warning_enter_keyword
      else Nothing_shown)"

lemma sorted_reverse_sorted: "sorted_wrt (\<lambda>a b. key b \<le> key a) (sorted_reverse key xs)"
proof -
  have "sorted (map key (sort_key key (rev xs)))" by (rule sorted_sort_key)
  then have "sorted_wrt (\<lambda>x y. key x \<le> key y) (sort_key key (rev xs))"
    by (simp add: sorted_map)
  then show ?thesis by (simp add: sorted_reverse_def sorted_wrt_rev)
qed

lemma sorted_reverse_stable:
  "filter (\<lambda>y. key y = k) (sorted_reverse key xs) = filter (\<lambda>y. key y = k) xs"
proof -
  have "filter (\<lambda>y. key y = k) (rev (sort_key key (rev xs)))
      = rev (filter (\<lambda>y. key y = k) (sort_key key (rev xs)))" by (simp add: rev_filter)
  also have "\<dots> = rev (filter (\<lambda>y. key y = k) (rev xs))" by (simp only: sort_key_stable)
  also have "\<dots> = filter (\<lambda>y. key y = k) xs" by (simp add: rev_filter)
  finally show ?thesis by (simp add: sorted_reverse_def)
qed

lemma set_sorted_reverse: "set (sorted_reverse key xs) = set xs"
  by (simp add: sorted_reverse_def)

lemma map_url_search_loop:
  "map url (search_loop ex ds kw) = filter (\<lambda>d. ex d \<noteq> [] \<and> contains (lower (ex d)) kw) ds"
  by (induction ds) (simp_all add: Let_def)

text \<open>
  C3. The results are ranked in descending order of their counts; results of equal
  count keep the order they had in the search's result list, which is the order of
  their documents in the input list.
\<close>

theorem C3_ranking_sorted_stable:
  "sorted_wrt (\<lambda>a b. count b \<le> count a) (ranked_results extract_text pdf_links K)
   \<and> (\<forall>c. filter (\<lambda>r. count r = c) (ranked_results extract_text pdf_links K)
          = filter (\<lambda>r. count r = c) (search_keyword_in_pdfs extract_text pdf_links K))
   \<and> map url (search_keyword_in_pdfs extract_text pdf_links K)
       = filter (\<lambda>d. extract_text d \<noteq> [] \<and> contains (lower (extract_text d)) (lower K)) pdf_links"
  unfolding ranked_results_def
  by (simp add: sorted_reverse_sorted sorted_reverse_stable search_keyword_in_pdfs_def
      map_url_search_loop)


text \<open>
  C4. The threshold is applied to the ranked sequence: what is shown is the ranked
  sequence without the results below the threshold. Every result shown is a result of
  the search as it stood, and its count is the number of matches in the whole text of
  its document, whatever the threshold.
\<close>

theorem C4_threshold_keeps_results:
  assumes "main button K min_matches pdf_links extract_text = Expanders shown"
    and "r \<in> set shown"
  shows "shown = filter (\<lambda>r. min_matches \<le> int (count r)) (ranked_results extract_text pdf_links K)
    \<and> r \<in> set (search_keyword_in_pdfs extract_text pdf_links K)
    \<and> count r = length (ci_positions 0 (extract_text (url r)) K)
    \<and> min_matches \<le> int (count r)"
proof -
  from assms(1) have sh: "shown = filter (\<lambda>result. \<not> int (count result) < min_matches)
      (ranked_results extract_text pdf_links K)"
    by (simp add: main_def Let_def split: if_splits)
  then have a: "shown = filter (\<lambda>r. min_matches \<le> int (count r))
      (ranked_results extract_text pdf_links K)" by (simp add: not_less)
  with assms(2) have m: "min_matches \<le> int (count r)"
    and "r \<in> set (ranked_results extract_text pdf_links K)" by simp_all
  then have mem: "r \<in> set (search_keyword_in_pdfs extract_text pdf_links K)"
    by (simp add: ranked_results_def set_sorted_reverse)
  then have "count r = count_sub (lower (extract_text (url r))) (lower K)"
    unfolding search_keyword_in_pdfs_def by (rule search_loop_mem [THEN conjunct2, THEN conjunct2,
      THEN conjunct2, THEN conjunct1])
  then have "count r = length (ci_positions 0 (extract_text (url r)) K)"
    by (simp add: count_sub_lower length_ci_positions)
  with a mem m show ?thesis by simp
qed


theorem C3_ranking_witness:
  "sorted_wrt (\<lambda>a b. count b \<le> count a)
     (ranked_results (\<lambda>d::nat. if d = 0 then ''ab'' else if d = 1 then ''abab'' else ''xAB'')
        [0, 1, 2] ''Ab'')
   \<and> map url (ranked_results
        (\<lambda>d::nat. if d = 0 then ''ab'' else if d = 1 then ''abab'' else ''xAB'') [0, 1, 2] ''Ab'')
     = [1, 0, 2]"
proof -
  let ?E = "\<lambda>d::nat. if d = 0 then ''ab'' else if d = 1 then ''abab'' else ''xAB''"
  from C3_ranking_sorted_stable [of ?E "[0, 1, 2]" "''Ab''"]
  have "sorted_wrt (\<lambda>a b. count b \<le> count a) (ranked_results ?E [0, 1, 2] ''Ab'')"
    by (rule conjunct1)
  moreover have "map url (ranked_results ?E [0, 1, 2] ''Ab'') = [1, 0, 2]"
    by code_simp
  ultimately show ?thesis by (rule conjI)
qed

theorem C4_threshold_witness:
  "main True ''Ab'' 2 [0::nat, 1, 2]
     (\<lambda>d. if d = 0 then ''ab'' else if d = 1 then ''abab'' else ''xAB'')
     = Expanders [\<lparr>url = 1, occurrences = [''abab''], count = 2\<rparr>]
   \<and> \<lparr>url = 1::nat, occurrences = [''abab''], count = 2\<rparr>
       \<in> set (search_keyword_in_pdfs
           (\<lambda>d. if d = 0 then ''ab'' else if d = 1 then ''abab'' else ''xAB'') [0, 1, 2] ''Ab'')
   \<and> length (ci_positions 0 ''abab'' ''Ab'') = 2"
proof -
  let ?E = "\<lambda>d::nat. if d = 0 then ''ab'' else if d = 1 then ''abab'' else ''xAB''"
  let ?r = "\<lparr>url = 1::nat, occurrences = [''abab''], count = 2\<rparr>"
  have m: "main True ''Ab'' 2 [0::nat, 1, 2] ?E = Expanders [?r]"
    by code_simp
  have r: "?r \<in> set [?r]" by simp
  note th = C4_threshold_keeps_results [OF m r]
  from th have a: "?r \<in> set (search_keyword_in_pdfs ?E [0, 1, 2] ''Ab'')"
    by (elim conjE)
  from th have "count ?r = length (ci_positions 0 (?E (url ?r)) ''Ab'')"
    by (elim conjE)
  then have b: "length (ci_positions 0 ''abab'' ''Ab'') = 2"
    by (simp only: search_result.select_convs) simp
  from m a b show ?thesis by (intro conjI)
qed

section \<open>Snippets and the count\<close>















section \<open>Context snippets\<close>















section \<open>Requests, exceptions and handlers\<close>

text \<open>
  What a script passes to \<^verbatim>\<open>requests.get\<close>: the URL, the \<^verbatim>\<open>headers\<close> argument (empty
  when none is passed) and the \<^verbatim>\<open>timeout\<close> argument in seconds (\<open>None\<close> when none is
  passed: the call then waits without bound).
\<close>

record request =
  req_url :: string
  req_headers :: "(string \<times> string) list"
  req_timeout :: "nat option"

text \<open>
  The exceptions the scripts meet, all of them subclasses of \<^verbatim>\<open>Exception\<close>: a failed
  connection, a timeout, the \<^verbatim>\<open>HTTPError\<close> of \<^verbatim>\<open>raise_for_status\<close> with the status, the
  \<^verbatim>\<open>PdfReadError\<close> of PyPDF2, an \<^verbatim>\<open>IndexError\<close>, and any other.
\<close>

datatype exn = ConnectionError | Timeout | HTTPError nat | PdfReadError | IndexError | OtherError

text \<open>
  The network: \<^verbatim>\<open>requests.get\<close> followed by \<^verbatim>\<open>raise_for_status\<close> either raises or gives
  the body of the response.
\<close>

type_synonym 'b http = "request \<Rightarrow> exn + 'b"

text \<open>
  \<^verbatim>\<open>try: body except E: handler\<close>: \<open>catches\<close> tells which exceptions \<open>E\<close> covers. A
  value \<open>Inl e\<close> is an exception on its way to the caller.
\<close>

definition try_except :: "exn + 'a \<Rightarrow> (exn \<Rightarrow> bool) \<Rightarrow> (exn \<Rightarrow> exn + 'a) \<Rightarrow> exn + 'a" where
  "try_except body catches handler =
     (case body of Inl e \<Rightarrow> if catches e then handler e else Inl e | Inr v \<Rightarrow> Inr v)"

definition Exception :: "exn \<Rightarrow> bool" where
  "Exception e = True"

definition user_agent :: "(string \<times> string) list" where
  "user_agent = [(''User-Agent'',
     ''Mozilla/5.0 (Windows NT 10.0; Win64; x64) AppleWebKit/537.36 (KHTML, like Gecko) Chrome/91.0.4472.124 Safari/537.36'')]"

section \<open>Text extraction\<close>

text \<open>
  A page of a parsed PDF, by what \<^verbatim>\<open>page.extract_text()\<close> does: it returns a text,
  returns nothing (\<^verbatim>\<open>None\<close> or the empty string, as for a scanned page), or raises.
\<close>

datatype pdf_page = Page_text string | Page_none | Page_raises exn

text \<open>\<^verbatim>\<open>for page in reader.pages: text += page.extract_text() or ""\<close>\<close>

fun read_pages :: "pdf_page list \<Rightarrow> string \<Rightarrow> exn + string" where
  "read_pages [] text = Inr text"
| "read_pages (Page_text t # pages) text = read_pages pages (text @ t)"
| "read_pages (Page_none # pages) text = read_pages pages (text @ [])"
| "read_pages (Page_raises e # pages) text = Inl e"

text \<open>
  \<^verbatim>\<open>reader = PyPDF2.PdfReader(f)\<close> and the loop. The parameter \<open>PdfReader\<close> parses the
  bytes into pages or raises.
\<close>

definition read_pdf :: "('b \<Rightarrow> exn + pdf_page list) \<Rightarrow> 'b \<Rightarrow> exn + string" where
  "read_pdf PdfReader content =
     (case PdfReader content of Inl e \<Rightarrow> Inl e | Inr pages \<Rightarrow> read_pages pages [])"

text \<open>
  \<^verbatim>\<open>extract_text_from_pdf\<close> of the three scripts, each with the request it issues. The
  warning shown on failure is not part of the value.
\<close>

definition extract_text_from_pdf_002b0f ::
  "'b http \<Rightarrow> ('b \<Rightarrow> exn + pdf_page list) \<Rightarrow> string \<Rightarrow> (exn + string) \<times> request list" where
  "extract_text_from_pdf_002b0f http PdfReader pdf_url =
     (let rq = \<lparr>req_url = pdf_url, req_headers = [], req_timeout = None\<rparr> in
      (try_except
         (case http rq of Inl e \<Rightarrow> Inl e | Inr content \<Rightarrow> read_pdf PdfReader content)
         Exception (\<lambda>e. Inr []),
       [rq]))"

text \<open>The dictionary of a link in the script 5c3fc3: \<^verbatim>\<open>url\<close>, \<^verbatim>\<open>title\<close>, \<^verbatim>\<open>id\<close>.\<close>

record pdf_info =
  info_url :: string
  info_title :: string
  info_id :: string

definition extract_text_from_pdf_5c3fc3 ::
  "'b http \<Rightarrow> ('b \<Rightarrow> exn + pdf_page list) \<Rightarrow> pdf_info \<Rightarrow> (exn + string) \<times> request list" where
  "extract_text_from_pdf_5c3fc3 http PdfReader info =
     (let rq = \<lparr>req_url = info_url info, req_headers = user_agent, req_timeout = Some 30\<rparr> in
      (try_except
         (case http rq of
            Inl e \<Rightarrow> Inl e
          | Inr content \<Rightarrow>
              try_except (read_pdf PdfReader content) (\<lambda>e. e = PdfReadError) (\<lambda>e. Inr []))
         Exception (\<lambda>e. Inr []),
       [rq]))"

definition extract_text_from_pdf_83bd0a ::
  "'b http \<Rightarrow> ('b \<Rightarrow> exn + pdf_page list) \<Rightarrow> string \<Rightarrow> (exn + string) \<times> request list" where
  "extract_text_from_pdf_83bd0a http PdfReader pdf_url =
     (let rq = \<lparr>req_url = pdf_url, req_headers = user_agent, req_timeout = Some 10\<rparr> in
      (try_except
         (case http rq of
            Inl e \<Rightarrow> Inl e
          | Inr content \<Rightarrow>
              try_except (read_pdf PdfReader content) (\<lambda>e. e = PdfReadError) (\<lambda>e. Inr []))
         Exception (\<lambda>e. Inr []),
       [rq]))"

text \<open>What a page adds to the text, and whether reading it raises.\<close>

fun page_text :: "pdf_page \<Rightarrow> string" where
  "page_text (Page_text t) = t"
| "page_text Page_none = []"
| "page_text (Page_raises e) = []"

fun page_raises :: "pdf_page \<Rightarrow> bool" where
  "page_raises (Page_raises e) = True"
| "page_raises p = False"

lemma read_pages_ok:
  "list_all (\<lambda>p. \<not> page_raises p) pages \<Longrightarrow>
     read_pages pages acc = Inr (acc @ concat (map page_text pages))"
  by (induction pages acc rule: read_pages.induct) simp_all

lemma try_except_Exception: "\<exists>s. try_except body Exception (\<lambda>e. Inr d) = Inr s"
  by (cases body) (simp_all add: try_except_def Exception_def)

text \<open>
  C7. Once the bytes of a document are fetched, extraction returns a string and raises
  nothing to the caller, whatever the parser does. When the payload parses and no page
  raises, the result is the texts of the pages joined in page order, a page without
  text adding the empty string; when the payload does not parse, the result is the
  empty string.
\<close>

theorem C7_extract_never_raises:
  assumes "http \<lparr>req_url = info_url info, req_headers = user_agent, req_timeout = Some 30\<rparr>
             = Inr content"
    and "http' \<lparr>req_url = u, req_headers = user_agent, req_timeout = Some 10\<rparr> = Inr content"
  shows "(\<exists>s. fst (extract_text_from_pdf_5c3fc3 http PdfReader info) = Inr s)
    \<and> (\<exists>s. fst (extract_text_from_pdf_83bd0a http' PdfReader u) = Inr s)
    \<and> (\<forall>pages. PdfReader content = Inr pages \<and> list_all (\<lambda>p. \<not> page_raises p) pages \<longrightarrow>
          fst (extract_text_from_pdf_5c3fc3 http PdfReader info) = Inr (concat (map page_text pages))
        \<and> fst (extract_text_from_pdf_83bd0a http' PdfReader u) = Inr (concat (map page_text pages)))
    \<and> (\<forall>e. PdfReader content = Inl e \<longrightarrow>
          fst (extract_text_from_pdf_5c3fc3 http PdfReader info) = Inr []
        \<and> fst (extract_text_from_pdf_83bd0a http' PdfReader u) = Inr [])"
proof (intro conjI allI impI)
  show "\<exists>s. fst (extract_text_from_pdf_5c3fc3 http PdfReader info) = Inr s"
    by (simp add: extract_text_from_pdf_5c3fc3_def Let_def try_except_Exception)
  show "\<exists>s. fst (extract_text_from_pdf_83bd0a http' PdfReader u) = Inr s"
    by (simp add: extract_text_from_pdf_83bd0a_def Let_def try_except_Exception)
next
  fix pages
  assume "PdfReader content = Inr pages \<and> list_all (\<lambda>p. \<not> page_raises p) pages"
  then have "read_pdf PdfReader content = Inr (concat (map page_text pages))"
    by (simp add: read_pdf_def read_pages_ok)
  then show "fst (extract_text_from_pdf_5c3fc3 http PdfReader info) = Inr (concat (map page_text pages))"
    and "fst (extract_text_from_pdf_83bd0a http' PdfReader u) = Inr (concat (map page_text pages))"
    using assms
    by (simp_all add: extract_text_from_pdf_5c3fc3_def extract_text_from_pdf_83bd0a_def Let_def
        try_except_def)
next
  fix e
  assume "PdfReader content = Inl e"
  then have "read_pdf PdfReader content = Inl e" by (simp add: read_pdf_def)
  then show "fst (extract_text_from_pdf_5c3fc3 http PdfReader info) = Inr []"
    and "fst (extract_text_from_pdf_83bd0a http' PdfReader u) = Inr []"
    using assms
    by (simp_all add: extract_text_from_pdf_5c3fc3_def extract_text_from_pdf_83bd0a_def Let_def
        try_except_def Exception_def)
qed


theorem C7_extract_witness:
  "fst (extract_text_from_pdf_5c3fc3 (\<lambda>rq. Inr (0::nat))
          (\<lambda>b. Inr [Page_text ''ab'', Page_none, Page_text ''c''])
          \<lparr>info_url = ''u'', info_title = ''t'', info_id = ''7''\<rparr>) = Inr ''abc''
   \<and> fst (extract_text_from_pdf_83bd0a (\<lambda>rq. Inr (0::nat))
          (\<lambda>b. Inr [Page_text ''ab'', Page_none, Page_text ''c'']) ''u'') = Inr ''abc''"
proof -
  let ?http = "\<lambda>rq::request. (Inr (0::nat) :: exn + nat)"
  let ?reader = "\<lambda>b::nat. (Inr [Page_text ''ab'', Page_none, Page_text ''c''] :: exn + pdf_page list)"
  let ?info = "\<lparr>info_url = ''u'', info_title = ''t'', info_id = ''7''\<rparr>"
  have a: "?http \<lparr>req_url = info_url ?info, req_headers = user_agent, req_timeout = Some 30\<rparr>
      = Inr 0" by simp
  have b: "?http \<lparr>req_url = ''u'', req_headers = user_agent, req_timeout = Some 10\<rparr> = Inr 0"
    by simp
  have c: "?reader 0 = Inr [Page_text ''ab'', Page_none, Page_text ''c'']
      \<and> list_all (\<lambda>p. \<not> page_raises p) [Page_text ''ab'', Page_none, Page_text ''c'']" by simp
  note th = C7_extract_never_raises [of ?http ?info 0 ?http "''u''" ?reader, OF a b]
  from th have "\<forall>pages. ?reader 0 = Inr pages \<and> list_all (\<lambda>p. \<not> page_raises p) pages \<longrightarrow>
          fst (extract_text_from_pdf_5c3fc3 ?http ?reader ?info) = Inr (concat (map page_text pages))
        \<and> fst (extract_text_from_pdf_83bd0a ?http ?reader ''u'') = Inr (concat (map page_text pages))"
    by (elim conjE)
  from this [rule_format, OF c] show ?thesis by simp
qed

section \<open>Link discovery\<close>

text \<open>
  A listing page as BeautifulSoup hands it to the scripts: the \<^verbatim>\<open>a\<close> elements that have
  an \<^verbatim>\<open>href\<close>, in document order, each with its visible text; and, when the page has a
  \<^verbatim>\<open>ul\<close> of class \<^verbatim>\<open>pagination\<close>, the \<^verbatim>\<open>href\<close>s of the links inside the first one.
\<close>

record anchor =
  href :: string
  link_text :: string

record soup =
  anchors :: "anchor list"
  pagination :: "string list option"

text \<open>
  The loop over the links of one page, in the scripts 002b0f and 83bd0a: the links whose
  \<^verbatim>\<open>href\<close> ends in \<^verbatim>\<open>.pdf\<close>, case ignored, made absolute. \<^verbatim>\<open>urljoin\<close> is a parameter.
\<close>

definition pdf_hrefs :: "(string \<Rightarrow> string \<Rightarrow> string) \<Rightarrow> string \<Rightarrow> anchor list \<Rightarrow> string list" where
  "pdf_hrefs urljoin page_url links =
     map (\<lambda>link. urljoin page_url (href link))
       (filter (\<lambda>link. endswith (lower (href link)) ''.pdf'') links)"

text \<open>
  \<^verbatim>\<open>get_all_pdf_links\<close> of the script 002b0f, with the request it issues. A failed fetch
  is reported on the page and gives the empty list.
\<close>

definition get_all_pdf_links_002b0f ::
  "soup http \<Rightarrow> (string \<Rightarrow> string \<Rightarrow> string) \<Rightarrow> string \<Rightarrow> string list \<times> request list" where
  "get_all_pdf_links_002b0f http urljoin base_url =
     (let rq = \<lparr>req_url = base_url, req_headers = [], req_timeout = None\<rparr> in
      case http rq of
        Inl e \<Rightarrow> ([], [rq])
      | Inr soup \<Rightarrow> (pdf_hrefs urljoin base_url (anchors soup), [rq]))"

text \<open>
  \<^verbatim>\<open>s.split(sep)\<close> for a separator that is not empty (the scripts pass a literal): the
  pieces between the occurrences of \<open>sep\<close>, found from left to right.
\<close>

function split_from :: "string \<Rightarrow> string \<Rightarrow> string \<Rightarrow> string list" where
  "split_from s sep piece =
     (if s = [] then [piece]
      else if sep \<noteq> [] \<and> startswith s sep then piece # split_from (drop (length sep) s) sep []
      else split_from (tl s) sep (piece @ [hd s]))"
  by pat_completeness auto
termination
  by (relation "measure (\<lambda>(s, sep, piece). length s)") auto

declare split_from.simps [simp del]

definition split :: "string \<Rightarrow> string \<Rightarrow> string list" where
  "split s sep = split_from s sep []"

definition PDF_BASE_URL :: string where
  "PDF_BASE_URL =
     ''https://cdsco.gov.in/opencms/opencms/system/modules/CDSCO.WEB/elements/common_download.jsp''"

text \<open>
  The loop over the links in the script 5c3fc3: a link to the download endpoint that
  carries \<^verbatim>\<open>num_id_pk=\<close> gives a dictionary with the URL built from the identifier, the
  trimmed text of the link and the identifier. \<^verbatim>\<open>split(...)[1]\<close> raises \<^verbatim>\<open>IndexError\<close> on
  a list with one element.
\<close>

fun download_links :: "anchor list \<Rightarrow> pdf_info list \<Rightarrow> exn + pdf_info list" where
  "download_links [] pdf_links = Inr pdf_links"
| "download_links (link # links) pdf_links =
     (if contains (href link) ''common_download.jsp'' then
        if contains (href link) ''num_id_pk='' then
          (case split (href link) ''num_id_pk='' of
             p # num_id # ps \<Rightarrow>
               download_links links
                 (pdf_links @
                   [\<lparr>info_url = PDF_BASE_URL @ ''?num_id_pk='' @ num_id,
                     info_title = strip (link_text link),
                     info_id = num_id\<rparr>])
           | ps \<Rightarrow> Inl IndexError)
        else download_links links pdf_links
      else download_links links pdf_links)"

definition get_all_pdf_links_5c3fc3 :: "soup http \<Rightarrow> string \<Rightarrow> pdf_info list \<times> request list" where
  "get_all_pdf_links_5c3fc3 http base_url =
     (let rq = \<lparr>req_url = base_url, req_headers = user_agent, req_timeout = Some 10\<rparr> in
      case http rq of
        Inl e \<Rightarrow> ([], [rq])
      | Inr soup \<Rightarrow>
          (case download_links (anchors soup) [] of
             Inl e \<Rightarrow> ([], [rq])
           | Inr pdf_links \<Rightarrow> (pdf_links, [rq])))"

text \<open>
  The script 83bd0a. \<^verbatim>\<open>for page_url in set(page_links)\<close>: each page is fetched inside
  its own \<^verbatim>\<open>try\<close>; a page that cannot be fetched is reported and passed over. The pair
  holds the links gathered and the requests issued so far.
\<close>

fun scan_pages ::
  "soup http \<Rightarrow> (string \<Rightarrow> string \<Rightarrow> string) \<Rightarrow> string list \<Rightarrow>
     string list \<times> request list \<Rightarrow> string list \<times> request list" where
  "scan_pages http urljoin [] (pdf_links, requests) = (pdf_links, requests)"
| "scan_pages http urljoin (page_url # pages) (pdf_links, requests) =
     (let rq = \<lparr>req_url = page_url, req_headers = [], req_timeout = Some 10\<rparr> in
      case http rq of
        Inl e \<Rightarrow> scan_pages http urljoin pages (pdf_links, requests @ [rq])
      | Inr page_soup \<Rightarrow>
          scan_pages http urljoin pages
            (pdf_links @ pdf_hrefs urljoin page_url (anchors page_soup), requests @ [rq]))"

text \<open>
  \<^verbatim>\<open>list(set(xs))\<close> and the iteration over \<^verbatim>\<open>set(xs)\<close> give the distinct elements of
  \<open>xs\<close> in an order Python does not fix. The order is the parameter \<open>set_list\<close>;
  \<open>py_set_order\<close> says what every such order satisfies.
\<close>

definition py_set_order :: "(string list \<Rightarrow> string list) \<Rightarrow> bool" where
  "py_set_order set_list = (\<forall>xs. distinct (set_list xs) \<and> set (set_list xs) = set xs)"

definition get_all_pdf_links_83bd0a ::
  "soup http \<Rightarrow> (string \<Rightarrow> string \<Rightarrow> string) \<Rightarrow> (string list \<Rightarrow> string list) \<Rightarrow> string \<Rightarrow>
     string list \<times> request list" where
  "get_all_pdf_links_83bd0a http urljoin set_list base_url =
     (let rq = \<lparr>req_url = base_url, req_headers = [], req_timeout = Some 10\<rparr> in
      case http rq of
        Inl e \<Rightarrow> ([], [rq])
      | Inr soup \<Rightarrow>
          let pdf_links = pdf_hrefs urljoin base_url (anchors soup) in
          (case pagination soup of
             None \<Rightarrow> (set_list pdf_links, [rq])
           | Some hrefs \<Rightarrow>
               let page_links = map (urljoin base_url) hrefs;
                   (pdf_links', requests) =
                      scan_pages http urljoin (set_list page_links) (pdf_links, [rq])
               in (set_list pdf_links', requests)))"

text \<open>The request for a pagination page, and the links found on it (none when it fails).\<close>

definition page_request :: "string \<Rightarrow> request" where
  "page_request page_url = \<lparr>req_url = page_url, req_headers = [], req_timeout = Some 10\<rparr>"

definition found_on :: "soup http \<Rightarrow> (string \<Rightarrow> string \<Rightarrow> string) \<Rightarrow> string \<Rightarrow> string list" where
  "found_on http urljoin page_url =
     (case http (page_request page_url) of
        Inl e \<Rightarrow> []
      | Inr page_soup \<Rightarrow> pdf_hrefs urljoin page_url (anchors page_soup))"

lemma scan_pages_eq:
  "scan_pages http urljoin pages (pdf_links, requests) =
     (pdf_links @ concat (map (found_on http urljoin) pages), requests @ map page_request pages)"
proof (induction pages arbitrary: pdf_links requests)
  case Nil
  show ?case by simp
next
  case (Cons u pages)
  show ?case
  proof (cases "http \<lparr>req_url = u, req_headers = [], req_timeout = Some 10\<rparr>")
    case (Inl e)
    then show ?thesis by (simp add: Cons.IH found_on_def page_request_def)
  next
    case (Inr pg)
    then show ?thesis by (simp add: Cons.IH found_on_def page_request_def)
  qed
qed



lemma get_all_pdf_links_83bd0a_distinct:
  assumes "py_set_order set_list"
  shows "distinct (fst (get_all_pdf_links_83bd0a http urljoin set_list base_url))"
proof -
  from assms have d: "\<And>xs. distinct (set_list xs)" by (simp add: py_set_order_def)
  show ?thesis
    by (simp add: get_all_pdf_links_83bd0a_def Let_def d scan_pages_eq
        split: sum.splits option.splits)
qed





text \<open>
  C9. The script 002b0f calls \<^verbatim>\<open>requests.get\<close> with the URL alone, for the listing page
  and for each document: no \<^verbatim>\<open>headers\<close> and no \<^verbatim>\<open>timeout\<close>. The script 83bd0a passes a
  timeout and no header for its listing and pagination pages. The script 5c3fc3 passes
  both, everywhere.
\<close>

theorem C9_requests_of_002b0f:
  "snd (get_all_pdf_links_002b0f http urljoin base_url)
     = [\<lparr>req_url = base_url, req_headers = [], req_timeout = None\<rparr>]
   \<and> snd (extract_text_from_pdf_002b0f http' PdfReader pdf_url)
     = [\<lparr>req_url = pdf_url, req_headers = [], req_timeout = None\<rparr>]
   \<and> snd (get_all_pdf_links_5c3fc3 http base_url)
     = [\<lparr>req_url = base_url, req_headers = user_agent, req_timeout = Some 10\<rparr>]
   \<and> snd (extract_text_from_pdf_5c3fc3 http' PdfReader info)
     = [\<lparr>req_url = info_url info, req_headers = user_agent, req_timeout = Some 30\<rparr>]"
  by (simp add: get_all_pdf_links_002b0f_def extract_text_from_pdf_002b0f_def
      get_all_pdf_links_5c3fc3_def extract_text_from_pdf_5c3fc3_def Let_def split: sum.splits)

text \<open>
  C6. The scripts 002b0f and 5c3fc3 return the links in page order and remove nothing:
  a link that occurs twice on the page occurs twice in the list, and two links with the
  same identifier and different titles both stay. The script 83bd0a passes its list
  through a set (\<open>get_all_pdf_links_83bd0a_distinct\<close>).
\<close>

theorem C6_duplicates_in_002b0f_5c3fc3:
  "fst (get_all_pdf_links_002b0f
      (\<lambda>rq. Inr \<lparr>anchors = [\<lparr>href = ''a.pdf'', link_text = ''A''\<rparr>,
                             \<lparr>href = ''a.pdf'', link_text = ''B''\<rparr>],
                  pagination = None\<rparr>)
      (\<lambda>b h. b @ h) ''http://x/'')
   = [''http://x/a.pdf'', ''http://x/a.pdf'']
   \<and> map (\<lambda>i. (info_id i, info_title i)) (fst (get_all_pdf_links_5c3fc3
      (\<lambda>rq. Inr \<lparr>anchors = [\<lparr>href = ''common_download.jsp?num_id_pk=7'', link_text = ''A''\<rparr>,
                             \<lparr>href = ''/x/common_download.jsp?num_id_pk=7'', link_text = ''B''\<rparr>],
                  pagination = None\<rparr>)
      ''http://x/''))
   = [(''7'', ''A''), (''7'', ''B'')]"
  by code_simp

section \<open>The cache\<close>















end
